theory Spec2Isabelle
  imports Main
begin

section \<open>JavaScript values, arrays and strings\<close>

text \<open>
  The chess part of \<open>server.js\<close> works on plain JavaScript data. A board square holds
  \<open>null\<close> or a one-letter string, and a read outside an array yields \<open>undefined\<close>.
  Indexing \<open>undefined\<close> throws a \<open>TypeError\<close>.
\<close>

datatype js_error = TypeError

datatype jsval = Undefined | Null | Str string

text \<open>
  A JavaScript array is an object keyed by index: reading an absent index gives
  \<open>undefined\<close> and writing any index defines it. A row is therefore a function from
  index to value (\<open>Undefined\<close> where nothing is stored) and a board is a partial map from
  row index to row (\<open>None\<close> is a row that does not exist). The source never reads
  \<open>length\<close> of a board or row.
\<close>

type_synonym row = "int \<Rightarrow> jsval"
type_synonym board = "int \<Rightarrow> row option"
type_synonym square = "int \<times> int"

definition js_row :: "jsval list \<Rightarrow> row" where
  "js_row xs i = (if 0 \<le> i \<and> i < int (length xs) then xs ! nat i else Undefined)"

definition js_rows :: "row list \<Rightarrow> board" where
  "js_rows rs i = (if 0 \<le> i \<and> i < int (length rs) then Some (rs ! nat i) else None)"

text \<open>\<open>board[r][c]\<close>: a \<open>TypeError\<close> when \<open>board[r]\<close> is \<open>undefined\<close>.\<close>

definition board_get :: "board \<Rightarrow> int \<Rightarrow> int \<Rightarrow> js_error + jsval" where
  "board_get b r c = (case b r of None \<Rightarrow> Inl TypeError | Some rw \<Rightarrow> Inr (rw c))"

text \<open>\<open>board[r][c] = v\<close>: a \<open>TypeError\<close> when \<open>board[r]\<close> is \<open>undefined\<close>.\<close>

definition board_set :: "board \<Rightarrow> int \<Rightarrow> int \<Rightarrow> jsval \<Rightarrow> js_error + board" where
  "board_set b r c v =
     (case b r of None \<Rightarrow> Inl TypeError | Some rw \<Rightarrow> Inr (b(r \<mapsto> rw(c := v))))"

text \<open>
  \<open>toUpperCase\<close> and \<open>toLowerCase\<close> on the ASCII letters; every other character is
  left alone (the boards of this program only ever hold the twelve piece letters).
\<close>

definition upper_char :: "char \<Rightarrow> char" where
  "upper_char c =
     (case map_of (zip ''abcdefghijklmnopqrstuvwxyz'' ''ABCDEFGHIJKLMNOPQRSTUVWXYZ'') c of
        Some u \<Rightarrow> u | None \<Rightarrow> c)"

definition lower_char :: "char \<Rightarrow> char" where
  "lower_char c =
     (case map_of (zip ''ABCDEFGHIJKLMNOPQRSTUVWXYZ'' ''abcdefghijklmnopqrstuvwxyz'') c of
        Some l \<Rightarrow> l | None \<Rightarrow> c)"

definition toUpperCase :: "string \<Rightarrow> string" where
  "toUpperCase s = map upper_char s"

definition toLowerCase :: "string \<Rightarrow> string" where
  "toLowerCase s = map lower_char s"

text \<open>JavaScript truthiness of a square value: \<open>null\<close>, \<open>undefined\<close> and \<open>''\<close> are falsy.\<close>

fun truthy :: "jsval \<Rightarrow> bool" where
  "truthy Undefined = False"
| "truthy Null = False"
| "truthy (Str s) = (s \<noteq> [])"

section \<open>Games\<close>

record move_record =
  from_sq :: square
  to_sq :: square
  piece :: jsval
  capturedPiece :: jsval
  timestamp :: string

record game =
  whitePlayer :: string
  blackPlayer :: string
  currentTurn :: string
  board :: board
  gameStatus :: string
  moveHistory :: "move_record list"

definition initial_board :: board where
  "initial_board = js_rows
     [js_row [Str ''r'', Str ''n'', Str ''b'', Str ''q'', Str ''k'', Str ''b'', Str ''n'', Str ''r''],
      js_row [Str ''p'', Str ''p'', Str ''p'', Str ''p'', Str ''p'', Str ''p'', Str ''p'', Str ''p''],
      js_row [Null, Null, Null, Null, Null, Null, Null, Null],
      js_row [Null, Null, Null, Null, Null, Null, Null, Null],
      js_row [Null, Null, Null, Null, Null, Null, Null, Null],
      js_row [Null, Null, Null, Null, Null, Null, Null, Null],
      js_row [Str ''P'', Str ''P'', Str ''P'', Str ''P'', Str ''P'', Str ''P'', Str ''P'', Str ''P''],
      js_row [Str ''R'', Str ''N'', Str ''B'', Str ''Q'', Str ''K'', Str ''B'', Str ''N'', Str ''R'']]"

definition createNewChessGame :: "string \<Rightarrow> string \<Rightarrow> game" where
  "createNewChessGame wp bp =
     \<lparr> whitePlayer = wp, blackPlayer = bp, currentTurn = ''white'',
       board = initial_board, gameStatus = ''active'', moveHistory = [] \<rparr>"

section \<open>Move validation\<close>

text \<open>
  A square is the pair \<open>[row, col]\<close> of integers that the client sends as \<open>from\<close> or
  \<open>to\<close>. The validator can fail in one way only, a \<open>TypeError\<close> on a board with a
  missing row, and contains one \<open>while\<close> statement, so its result is an
  \<open>(js_error + bool) option\<close>: \<open>None\<close> for a call that never returns, \<open>Some (Inl e)\<close> for
  a throw, \<open>Some (Inr b)\<close> for the returned boolean.
\<close>

text \<open>
  The \<open>while\<close> loop of \<open>isPathClear\<close>, started at the square after \<open>from\<close>. It walks by
  the fixed step until it stands on \<open>to\<close>; a square that is not \<open>null\<close> (a piece, or
  \<open>undefined\<close> beside the board) ends it with \<open>false\<close>, a missing row throws. Nothing in
  the loop itself bounds the walk, so it is a partial function: \<open>None\<close> is a walk that
  never returns.
\<close>

partial_function (option) path_loop ::
  "board \<Rightarrow> int \<Rightarrow> int \<Rightarrow> int \<Rightarrow> int \<Rightarrow> int \<Rightarrow> int \<Rightarrow> (js_error + bool) option" where
  "path_loop b rowStep colStep toRow toCol currentRow currentCol =
     (if currentRow \<noteq> toRow \<or> currentCol \<noteq> toCol then
        (case board_get b currentRow currentCol of
           Inl e \<Rightarrow> Some (Inl e)
         | Inr v \<Rightarrow>
             if v \<noteq> Null then Some (Inr False)
             else path_loop b rowStep colStep toRow toCol
                    (currentRow + rowStep) (currentCol + colStep))
      else Some (Inr True))"

definition isPathClear :: "board \<Rightarrow> square \<Rightarrow> square \<Rightarrow> (js_error + bool) option" where
  "isPathClear b from to =
     (case from of (fromRow, fromCol) \<Rightarrow> case to of (toRow, toCol) \<Rightarrow>
        let rowStep = (if toRow > fromRow then 1 else if toRow < fromRow then -1 else 0);
            colStep = (if toCol > fromCol then 1 else if toCol < fromCol then -1 else 0)
        in path_loop b rowStep colStep toRow toCol (fromRow + rowStep) (fromCol + colStep))"

text \<open>
  The \<open>switch\<close> on the piece type at the end of \<open>isValidMove\<close>, one definition for
  each \<open>case\<close> that has a body of its own. \<open>rowDiff\<close> and \<open>colDiff\<close> are the absolute
  differences computed just before the \<open>switch\<close>.
\<close>

text \<open>\<open>case 'p'\<close>: the pawn.\<close>

definition pawn_rule :: "square \<Rightarrow> square \<Rightarrow> bool \<Rightarrow> jsval \<Rightarrow> bool" where
  "pawn_rule from to isWhitePiece targetPiece =
     (case from of (fromRow, fromCol) \<Rightarrow> case to of (toRow, toCol) \<Rightarrow>
        let colDiff = \<bar>toCol - fromCol\<bar>;
            direction = (if isWhitePiece then -1 else 1);
            startRow = (if isWhitePiece then 6 else 1) in
        if fromCol = toCol then
          (if toRow = fromRow + direction \<and> \<not> truthy targetPiece then True
           else if fromRow = startRow \<and> toRow = fromRow + 2 * direction \<and> \<not> truthy targetPiece
             then True
           else False)
        else if colDiff = 1 \<and> toRow = fromRow + direction \<and> truthy targetPiece then True
        else False)"

text \<open>
  \<open>case 'r'\<close>, \<open>case 'b'\<close> and \<open>case 'q'\<close>: \<open>&&\<close> short-circuits, so \<open>isPathClear\<close> runs
  only when the geometry of the move already fits.
\<close>

definition rook_rule :: "board \<Rightarrow> square \<Rightarrow> square \<Rightarrow> (js_error + bool) option" where
  "rook_rule b from to =
     (case from of (fromRow, fromCol) \<Rightarrow> case to of (toRow, toCol) \<Rightarrow>
        let rowDiff = \<bar>toRow - fromRow\<bar>; colDiff = \<bar>toCol - fromCol\<bar> in
        if rowDiff = 0 \<or> colDiff = 0 then isPathClear b from to else Some (Inr False))"

definition bishop_rule :: "board \<Rightarrow> square \<Rightarrow> square \<Rightarrow> (js_error + bool) option" where
  "bishop_rule b from to =
     (case from of (fromRow, fromCol) \<Rightarrow> case to of (toRow, toCol) \<Rightarrow>
        let rowDiff = \<bar>toRow - fromRow\<bar>; colDiff = \<bar>toCol - fromCol\<bar> in
        if rowDiff = colDiff then isPathClear b from to else Some (Inr False))"

definition queen_rule :: "board \<Rightarrow> square \<Rightarrow> square \<Rightarrow> (js_error + bool) option" where
  "queen_rule b from to =
     (case from of (fromRow, fromCol) \<Rightarrow> case to of (toRow, toCol) \<Rightarrow>
        let rowDiff = \<bar>toRow - fromRow\<bar>; colDiff = \<bar>toCol - fromCol\<bar> in
        if (rowDiff = 0 \<or> colDiff = 0) \<or> rowDiff = colDiff then isPathClear b from to
        else Some (Inr False))"

text \<open>\<open>case 'n'\<close> and \<open>case 'k'\<close>.\<close>

definition knight_rule :: "square \<Rightarrow> square \<Rightarrow> bool" where
  "knight_rule from to =
     (case from of (fromRow, fromCol) \<Rightarrow> case to of (toRow, toCol) \<Rightarrow>
        let rowDiff = \<bar>toRow - fromRow\<bar>; colDiff = \<bar>toCol - fromCol\<bar> in
        (rowDiff = 2 \<and> colDiff = 1) \<or> (rowDiff = 1 \<and> colDiff = 2))"

definition king_rule :: "square \<Rightarrow> square \<Rightarrow> bool" where
  "king_rule from to =
     (case from of (fromRow, fromCol) \<Rightarrow> case to of (toRow, toCol) \<Rightarrow>
        let rowDiff = \<bar>toRow - fromRow\<bar>; colDiff = \<bar>toCol - fromCol\<bar> in
        rowDiff \<le> 1 \<and> colDiff \<le> 1)"

text \<open>The \<open>switch\<close> itself, with \<open>default: return false\<close>.\<close>

definition piece_rule ::
  "board \<Rightarrow> square \<Rightarrow> square \<Rightarrow> bool \<Rightarrow> jsval \<Rightarrow> string \<Rightarrow> (js_error + bool) option" where
  "piece_rule b from to isWhitePiece targetPiece pieceType =
     (if pieceType = ''p'' then Some (Inr (pawn_rule from to isWhitePiece targetPiece))
      else if pieceType = ''r'' then rook_rule b from to
      else if pieceType = ''n'' then Some (Inr (knight_rule from to))
      else if pieceType = ''b'' then bishop_rule b from to
      else if pieceType = ''q'' then queen_rule b from to
      else if pieceType = ''k'' then Some (Inr (king_rule from to))
      else Some (Inr False))"

definition isValidMove :: "game \<Rightarrow> square \<Rightarrow> square \<Rightarrow> (js_error + bool) option" where
  "isValidMove g from to =
     (case from of (fromRow, fromCol) \<Rightarrow> case to of (toRow, toCol) \<Rightarrow>
        if fromRow < 0 \<or> fromRow > 7 \<or> fromCol < 0 \<or> fromCol > 7 \<or>
           toRow < 0 \<or> toRow > 7 \<or> toCol < 0 \<or> toCol > 7 then Some (Inr False)
        else
          (case board_get (board g) fromRow fromCol of
             Inl e \<Rightarrow> Some (Inl e)
           | Inr Undefined \<Rightarrow> Some (Inr False)
           | Inr Null \<Rightarrow> Some (Inr False)
           | Inr (Str p) \<Rightarrow>
               if p = [] then Some (Inr False)
               else
                 let isWhitePiece = (p = toUpperCase p) in
                 if (currentTurn g = ''white'' \<and> \<not> isWhitePiece) \<or>
                    (currentTurn g = ''black'' \<and> isWhitePiece) then Some (Inr False)
                 else
                   (case board_get (board g) toRow toCol of
                      Inl e \<Rightarrow> Some (Inl e)
                    | Inr targetPiece \<Rightarrow>
                        if (case targetPiece of
                              Str t \<Rightarrow> t \<noteq> [] \<and> isWhitePiece = (t = toUpperCase t)
                            | _ \<Rightarrow> False)
                        then Some (Inr False)
                        else piece_rule (board g) from to isWhitePiece targetPiece
                               (toLowerCase p))))"

section \<open>Applying a move\<close>

text \<open>
  \<open>makeMove\<close> reads both squares, writes the piece onto \<open>to\<close>, clears \<open>from\<close> and pushes
  the record. Both reads come first, so a missing row throws before anything is written.
  The timestamp \<open>new Date().toISOString()\<close> is an input of the model.
\<close>

definition makeMove :: "game \<Rightarrow> square \<Rightarrow> square \<Rightarrow> string \<Rightarrow> js_error + game" where
  "makeMove g from to now =
     (case from of (fromRow, fromCol) \<Rightarrow> case to of (toRow, toCol) \<Rightarrow>
       (case board_get (board g) fromRow fromCol of
          Inl e \<Rightarrow> Inl e
        | Inr pc \<Rightarrow>
            (case board_get (board g) toRow toCol of
               Inl e \<Rightarrow> Inl e
             | Inr captured \<Rightarrow>
                 (case board_set (board g) toRow toCol pc of
                    Inl e \<Rightarrow> Inl e
                  | Inr b1 \<Rightarrow>
                      (case board_set b1 fromRow fromCol Null of
                         Inl e \<Rightarrow> Inl e
                       | Inr b2 \<Rightarrow>
                           Inr (g\<lparr> board := b2,
                                   moveHistory := moveHistory g @
                                     [\<lparr> from_sq = from, to_sq = to, piece = pc,
                                        capturedPiece = captured, timestamp = now \<rparr>] \<rparr>))))))"

section \<open>Effects of the handlers\<close>

text \<open>
  What a handler does to the outside world, in the order it does it: completed database
  writes, socket emissions and logged errors. \<open>game.winner\<close> is never assigned anywhere in
  the source, so the \<open>winner\<close> sent to the database is \<open>undefined\<close>.
\<close>

record chess_update =
  u_currentTurn :: string
  u_boardState :: board
  u_gameStatus :: string
  u_moveHistory :: "move_record list"
  u_winner :: jsval

datatype payload =
    ChessGameStarted string game
  | ChessMoveMade string game
  | ChessGameEnded string string string
  | ChessInviteDeclined "string option"
  | ChessGameMessage string string

datatype effect =
    DbCreateChessGame string string string board
  | DbUpdateChessGame string chess_update
  | DbSaveMessage string string string
  | EmitTo string payload
  | EmitFrom string string payload
  | EmitAll payload
  | ConsoleError string
  | UnhandledRejection js_error

section \<open>Terminal detection\<close>

text \<open>The two nested \<open>for\<close> statements of \<open>checkGameEnd\<close>, row by row over the 64 squares.\<close>

fun scan_kings :: "board \<Rightarrow> square list \<Rightarrow> bool \<times> bool \<Rightarrow> js_error + bool \<times> bool" where
  "scan_kings b [] acc = Inr acc"
| "scan_kings b ((r, c) # rest) (whiteKing, blackKing) =
     (case board_get b r c of
        Inl e \<Rightarrow> Inl e
      | Inr pc \<Rightarrow>
          scan_kings b rest (whiteKing \<or> pc = Str ''K'', blackKing \<or> pc = Str ''k''))"

definition all_squares :: "square list" where
  "all_squares = List.product [0..7] [0..7]"

definition checkGameEnd :: "game \<Rightarrow> string \<Rightarrow> js_error + game \<times> effect list" where
  "checkGameEnd g gameId =
     (case scan_kings (board g) all_squares (False, False) of
        Inl e \<Rightarrow> Inl e
      | Inr (whiteKing, blackKing) \<Rightarrow>
          if \<not> whiteKing then
            Inr (g\<lparr>gameStatus := ''black_wins''\<rparr>,
                 [EmitAll (ChessGameEnded gameId (blackPlayer g) ''checkmate'')])
          else if \<not> blackKing then
            Inr (g\<lparr>gameStatus := ''white_wins''\<rparr>,
                 [EmitAll (ChessGameEnded gameId (whitePlayer g) ''checkmate'')])
          else Inr (g, []))"

section \<open>The server state and the socket handlers\<close>

text \<open>
  \<open>activeUsers\<close> is a \<open>Map\<close> from socket id to username, searched in insertion order by
  username; \<open>chessGames\<close> is a \<open>Map\<close> from game id to the game object.
\<close>

record server =
  activeUsers :: "(string \<times> string) list"
  chessGames :: "string \<Rightarrow> game option"

text \<open>
  \<open>Array.from(activeUsers.entries()).find(([id, username]) => username === name)?.[0]\<close>
\<close>

definition find_socket :: "(string \<times> string) list \<Rightarrow> string \<Rightarrow> string option" where
  "find_socket users name = map_option fst (find (\<lambda>(id, username). username = name) users)"

text \<open>A looked-up string used as a condition: \<open>undefined\<close> and \<open>''\<close> are falsy.\<close>

fun truthy_str :: "string option \<Rightarrow> bool" where
  "truthy_str None = False"
| "truthy_str (Some x) = (x \<noteq> [])"

text \<open>The \<open>if (id) io.to(id).emit(...)\<close> of the move handler.\<close>

definition emit_if :: "string option \<Rightarrow> payload \<Rightarrow> effect list" where
  "emit_if sid p = (case sid of None \<Rightarrow> [] | Some i \<Rightarrow> if i \<noteq> [] then [EmitTo i p] else [])"

text \<open>
  \<open>socket.on('chess invite response')\<close>. The two database calls may fail; their outcome
  is an input (\<open>create_ok\<close>, \<open>save_ok\<close>), as is the clock. The leading emoji of the system
  message and the random message id are left out of the payloads. The two looked-up
  strings are read with \<open>the\<close> only behind the test that they are truthy.
\<close>

definition chess_invite_response ::
  "server \<Rightarrow> string \<Rightarrow> string \<Rightarrow> string \<Rightarrow> bool \<Rightarrow> bool \<Rightarrow> bool \<Rightarrow> string
     \<Rightarrow> server \<times> effect list" where
  "chess_invite_response s socket_id gameId inviterUsername accepted create_ok save_ok now =
     (let responderUsername = map_of (activeUsers s) socket_id;
          inviterSocketId = find_socket (activeUsers s) inviterUsername in
      if accepted \<and> truthy_str responderUsername \<and> truthy_str inviterSocketId then
        (let responder = the responderUsername;
             gameState = createNewChessGame inviterUsername responder;
             text = ''Chess game started between '' @ inviterUsername @ '' and '' @ responder in
         if \<not> create_ok then (s, [ConsoleError ''Error creating chess game:''])
         else
           (let s' = s\<lparr>chessGames := (chessGames s)(gameId \<mapsto> gameState)\<rparr>;
                started =
                  [DbCreateChessGame gameId inviterUsername responder (board gameState),
                   EmitTo socket_id (ChessGameStarted gameId gameState),
                   EmitTo (the inviterSocketId) (ChessGameStarted gameId gameState)] in
            if \<not> save_ok then (s', started @ [ConsoleError ''Error creating chess game:''])
            else (s', started @
                   [DbSaveMessage ''System'' text ''system'',
                    EmitAll (ChessGameMessage text now)])))
      else if truthy_str inviterSocketId then
        (s, [EmitFrom socket_id (the inviterSocketId) (ChessInviteDeclined responderUsername)])
      else (s, []))"

text \<open>
  \<open>socket.on('chess move')\<close>. The game object is mutated in place, so the registry holds
  the moved board and the flipped turn whether or not the database write succeeds
  (\<open>db_ok\<close>). An exception outside the \<open>try\<close> rejects the handler's promise. The
  handler is taken as one step: the effects are listed in the order in which the handler
  produces them, the write before the emissions because the handler awaits it.
\<close>

definition chess_move ::
  "server \<Rightarrow> string \<Rightarrow> string \<Rightarrow> square \<Rightarrow> square \<Rightarrow> string \<Rightarrow> bool
     \<Rightarrow> (server \<times> effect list) option" where
  "chess_move s socket_id gameId from to now db_ok =
     (case chessGames s gameId of
        None \<Rightarrow> Some (s, [])
      | Some g \<Rightarrow>
          let playerUsername = map_of (activeUsers s) socket_id in
          if \<not> truthy_str playerUsername then Some (s, [])
          else if (currentTurn g = ''white'' \<and> Some (whitePlayer g) = playerUsername) \<or>
                  (currentTurn g = ''black'' \<and> Some (blackPlayer g) = playerUsername) then
            (case isValidMove g from to of
               None \<Rightarrow> None
             | Some (Inl e) \<Rightarrow> Some (s, [UnhandledRejection e])
             | Some (Inr False) \<Rightarrow> Some (s, [])
             | Some (Inr True) \<Rightarrow>
                 (case makeMove g from to now of
                    Inl e \<Rightarrow> Some (s, [UnhandledRejection e])
                  | Inr g1 \<Rightarrow>
                      let g2 = g1\<lparr>currentTurn :=
                                    (if currentTurn g1 = ''white'' then ''black'' else ''white'')\<rparr>;
                          s2 = s\<lparr>chessGames := (chessGames s)(gameId \<mapsto> g2)\<rparr> in
                      if \<not> db_ok then Some (s2, [ConsoleError ''Error updating chess game:''])
                      else
                        let written =
                              DbUpdateChessGame gameId
                                \<lparr> u_currentTurn = currentTurn g2, u_boardState = board g2,
                                  u_gameStatus = gameStatus g2, u_moveHistory = moveHistory g2,
                                  u_winner = Undefined \<rparr>;
                            made =
                              emit_if (find_socket (activeUsers s) (whitePlayer g2))
                                (ChessMoveMade gameId g2) @
                              emit_if (find_socket (activeUsers s) (blackPlayer g2))
                                (ChessMoveMade gameId g2) in
                        (case checkGameEnd g2 gameId of
                           Inl e \<Rightarrow>
                             Some (s2, written # made @ [ConsoleError ''Error updating chess game:''])
                         | Inr (g3, ended) \<Rightarrow>
                             Some (s\<lparr>chessGames := (chessGames s)(gameId \<mapsto> g3)\<rparr>,
                                   written # made @ ended))))
          else Some (s, []))"

section \<open>Runs of events\<close>

datatype event =
    ChessInviteResponse string string string bool bool bool string
  | ChessMove string string square square string bool

fun step :: "server \<Rightarrow> event \<Rightarrow> (server \<times> effect list) option" where
  "step s (ChessInviteResponse socket_id gameId inviter accepted create_ok save_ok now) =
     Some (chess_invite_response s socket_id gameId inviter accepted create_ok save_ok now)"
| "step s (ChessMove socket_id gameId from to now db_ok) =
     chess_move s socket_id gameId from to now db_ok"

fun run :: "server \<Rightarrow> event list \<Rightarrow> (server \<times> effect list) option" where
  "run s [] = Some (s, [])"
| "run s (e # es) =
     (case step s e of
        None \<Rightarrow> None
      | Some (s1, out1) \<Rightarrow>
          (case run s1 es of None \<Rightarrow> None | Some (s2, out2) \<Rightarrow> Some (s2, out1 @ out2)))"

text \<open>
  A move event is accepted when it passes the three guards of the handler: the game and
  the player's name are found, it is that player's turn, and the validator says yes.
\<close>

fun accepted :: "string \<Rightarrow> server \<Rightarrow> event \<Rightarrow> bool" where
  "accepted gid s (ChessMove socket_id gameId from to now db_ok) =
     (gameId = gid \<and>
      (case chessGames s gameId of
         None \<Rightarrow> False
       | Some g \<Rightarrow>
           truthy_str (map_of (activeUsers s) socket_id) \<and>
           ((currentTurn g = ''white'' \<and> Some (whitePlayer g) = map_of (activeUsers s) socket_id) \<or>
            (currentTurn g = ''black'' \<and> Some (blackPlayer g) = map_of (activeUsers s) socket_id)) \<and>
           isValidMove g from to = Some (Inr True)))"
| "accepted gid s (ChessInviteResponse socket_id gameId inviter acc create_ok save_ok now) = False"

fun is_move :: "event \<Rightarrow> bool" where
  "is_move (ChessMove socket_id gameId from to now db_ok) = True"
| "is_move (ChessInviteResponse socket_id gameId inviter acc create_ok save_ok now) = False"

fun count_accepted :: "string \<Rightarrow> server \<Rightarrow> event list \<Rightarrow> nat" where
  "count_accepted gid s [] = 0"
| "count_accepted gid s (e # es) =
     (case step s e of
        None \<Rightarrow> 0
      | Some (s1, out1) \<Rightarrow> (if accepted gid s e then 1 else 0) + count_accepted gid s1 es)"

text \<open>Projections of a handler's result, for stating what a run leaves behind.\<close>

definition game_after :: "(server \<times> effect list) option \<Rightarrow> string \<Rightarrow> game option" where
  "game_after res gid = (case res of None \<Rightarrow> None | Some (s, out) \<Rightarrow> chessGames s gid)"

definition effects_after :: "(server \<times> effect list) option \<Rightarrow> effect list" where
  "effects_after res = (case res of None \<Rightarrow> [] | Some (s, out) \<Rightarrow> out)"

text \<open>The statuses carried by the completed \<open>updateChessGame\<close> writes of a trace, in order.\<close>

fun written_statuses :: "effect list \<Rightarrow> string list" where
  "written_statuses [] = []"
| "written_statuses (DbUpdateChessGame gid u # es) = u_gameStatus u # written_statuses es"
| "written_statuses (e # es) = written_statuses es"

text \<open>The \<open>chess game ended\<close> broadcasts of a trace, in order.\<close>

fun ended_broadcasts :: "effect list \<Rightarrow> payload list" where
  "ended_broadcasts [] = []"
| "ended_broadcasts (EmitAll (ChessGameEnded gid w r) # es) =
     ChessGameEnded gid w r # ended_broadcasts es"
| "ended_broadcasts (e # es) = ended_broadcasts es"

section \<open>Notions used to state the properties\<close>

text \<open>The eight rows of the board exist (each \<open>board[r]\<close> for \<open>r\<close> in 0..7 is an array).\<close>

definition has_rows :: "board \<Rightarrow> bool" where
  "has_rows b = (\<forall>r \<in> {0..7}. b r \<noteq> None)"

text \<open>The direction of travel along one axis, as \<open>isPathClear\<close> computes it.\<close>

definition step_of :: "int \<Rightarrow> int \<Rightarrow> int" where
  "step_of a b = (if b > a then 1 else if b < a then -1 else 0)"

text \<open>
  A square lies strictly between two others: on the segment that joins them, inside
  their bounding box, and different from both ends.
\<close>

definition strictly_between :: "square \<Rightarrow> square \<Rightarrow> square \<Rightarrow> bool" where
  "strictly_between from to sq =
     (case from of (fr, fc) \<Rightarrow> case to of (tr, tc) \<Rightarrow> case sq of (r, c) \<Rightarrow>
        sq \<noteq> from \<and> sq \<noteq> to \<and>
        min fr tr \<le> r \<and> r \<le> max fr tr \<and> min fc tc \<le> c \<and> c \<le> max fc tc \<and>
        (r - fr) * (tc - fc) = (c - fc) * (tr - fr))"

text \<open>
  The standard chess starting position, square by square: black's pieces on row 0 and
  pawns on row 1, white's pawns on row 6 and pieces on row 7, nothing in between.
\<close>

definition standard_start_square :: "int \<Rightarrow> int \<Rightarrow> jsval" where
  "standard_start_square r c =
     (if r = 0 then Str [''rnbqkbnr'' ! nat c]
      else if r = 1 then Str ''p''
      else if r = 6 then Str ''P''
      else if r = 7 then Str [''RNBQKBNR'' ! nat c]
      else Null)"

text \<open>
  The three silent rejections of the move handler: the game or the player's name is not
  found, it is not that player's turn, or the validator returns \<open>false\<close>.
\<close>

definition rejected :: "server \<Rightarrow> string \<Rightarrow> string \<Rightarrow> square \<Rightarrow> square \<Rightarrow> bool" where
  "rejected s socket_id gameId from to =
     (case chessGames s gameId of
        None \<Rightarrow> True
      | Some g \<Rightarrow>
          \<not> truthy_str (map_of (activeUsers s) socket_id) \<or>
          \<not> ((currentTurn g = ''white'' \<and> Some (whitePlayer g) = map_of (activeUsers s) socket_id) \<or>
             (currentTurn g = ''black'' \<and> Some (blackPlayer g) = map_of (activeUsers s) socket_id)) \<or>
          isValidMove g from to = Some (Inr False))"

text \<open>The other colour, as the handler computes it after a move.\<close>

definition flip_turn :: "string \<Rightarrow> string" where
  "flip_turn t = (if t = ''white'' then ''black'' else ''white'')"

text \<open>What stands on a square (\<open>undefined\<close> where the row does not exist).\<close>

definition square_value :: "board \<Rightarrow> square \<Rightarrow> jsval" where
  "square_value b sq = (case board_get b (fst sq) (snd sq) of Inl e \<Rightarrow> Undefined | Inr v \<Rightarrow> v)"

text \<open>
  The record a move event is expected to leave in the history of the game it is played
  on: the two squares, the piece that stood on the source, what stood on the destination
  (\<open>null\<close> for an empty square), and the timestamp.
\<close>

fun expected_record :: "game \<Rightarrow> event \<Rightarrow> move_record" where
  "expected_record g (ChessMove socket_id gameId from to now db_ok) =
     \<lparr> from_sq = from, to_sq = to, piece = square_value (board g) from,
       capturedPiece = square_value (board g) to, timestamp = now \<rparr>"
| "expected_record g (ChessInviteResponse socket_id gameId inviter acc create_ok save_ok now) =
     \<lparr> from_sq = (0, 0), to_sq = (0, 0), piece = Undefined, capturedPiece = Undefined,
       timestamp = now \<rparr>"

text \<open>The expected records of the accepted moves of a run on one game, in order.\<close>

fun expected_records :: "string \<Rightarrow> server \<Rightarrow> event list \<Rightarrow> move_record list" where
  "expected_records gid s [] = []"
| "expected_records gid s (e # es) =
     (case step s e of
        None \<Rightarrow> []
      | Some (s1, out1) \<Rightarrow>
          (if accepted gid s e
           then [expected_record (the (chessGames s gid)) e] else []) @
          expected_records gid s1 es)"

text \<open>
  Two connected users, and the server once bob (socket \<open>s2\<close>) has accepted alice's
  invitation to game \<open>g1\<close>.
\<close>

definition lobby :: server where
  "lobby = \<lparr> activeUsers = [(''s1'', ''alice''), (''s2'', ''bob'')], chessGames = Map.empty \<rparr>"

definition started :: server where
  "started = fst (chess_invite_response lobby ''s2'' ''g1'' ''alice'' True True True ''t0'')"

text \<open>
  White opens with the pawn from (6, 4) to (4, 4) and then tries to move again out of
  turn.
\<close>

definition first_moves :: "event list" where
  "first_moves =
     [ChessMove ''s1'' ''g1'' (6, 4) (4, 4) ''t1'' True,
      ChessMove ''s1'' ''g1'' (6, 3) (4, 3) ''t2'' True]"

text \<open>
  Five moves from the start after which white's queen takes the black king on (0, 4):
  pawn (6, 4) to (4, 4), black pawn (1, 5) to (2, 5), queen (7, 3) to (3, 7), black pawn
  (1, 0) to (2, 0), queen (3, 7) to (0, 4).
\<close>

definition king_capture :: "event list" where
  "king_capture =
     [ChessMove ''s1'' ''g1'' (6, 4) (4, 4) ''t1'' True,
      ChessMove ''s2'' ''g1'' (1, 5) (2, 5) ''t2'' True,
      ChessMove ''s1'' ''g1'' (7, 3) (3, 7) ''t3'' True,
      ChessMove ''s2'' ''g1'' (1, 0) (2, 0) ''t4'' True,
      ChessMove ''s1'' ''g1'' (3, 7) (0, 4) ''t5'' True]"

definition after_capture :: server where
  "after_capture = (case run started king_capture of None \<Rightarrow> started | Some (s, out) \<Rightarrow> s)"

text \<open>
  Six knight moves from the start that bring a black knight to (5, 4), right in front of
  white's pawn on (6, 4).
\<close>

definition knight_sortie :: "event list" where
  "knight_sortie =
     [ChessMove ''s1'' ''g1'' (7, 1) (5, 0) ''t1'' True,
      ChessMove ''s2'' ''g1'' (0, 6) (2, 5) ''t2'' True,
      ChessMove ''s1'' ''g1'' (5, 0) (7, 1) ''t3'' True,
      ChessMove ''s2'' ''g1'' (2, 5) (3, 3) ''t4'' True,
      ChessMove ''s1'' ''g1'' (7, 1) (5, 0) ''t5'' True,
      ChessMove ''s2'' ''g1'' (3, 3) (5, 4) ''t6'' True]"

definition after_sortie :: game where
  "after_sortie =
     (case game_after (run started knight_sortie) ''g1'' of
        None \<Rightarrow> createNewChessGame ''alice'' ''bob'' | Some g \<Rightarrow> g)"

text \<open>The starting position with both kings taken off the board.\<close>

definition kingless_game :: game where
  "kingless_game =
     (createNewChessGame ''alice'' ''bob'')
       \<lparr> board := initial_board
           (0 \<mapsto> js_row [Str ''r'', Str ''n'', Str ''b'', Str ''q'', Null, Str ''b'', Str ''n'', Str ''r''],
            7 \<mapsto> js_row [Str ''R'', Str ''N'', Str ''B'', Str ''Q'', Null, Str ''B'', Str ''N'', Str ''R'']) \<rparr>"

text \<open>
  A position for trying the rules on: the starting position without white's pawn on
  (6, 0), so that the rook on (7, 0) has an open file.
\<close>

definition open_file_game :: game where
  "open_file_game =
     (createNewChessGame ''alice'' ''bob'')
       \<lparr> board := initial_board(6 \<mapsto> js_row [Null, Str ''P'', Str ''P'', Str ''P'', Str ''P'', Str ''P'', Str ''P'', Str ''P'']) \<rparr>"

section \<open>Unfolding the definitions on concrete inputs\<close>

lemmas board_eval =
  board_get_def board_set_def initial_board_def js_rows_def js_row_def

lemmas case_eval =
  toUpperCase_def toLowerCase_def upper_char_def lower_char_def

lemmas rule_eval =
  piece_rule_def pawn_rule_def rook_rule_def bishop_rule_def queen_rule_def
  knight_rule_def king_rule_def isPathClear_def path_loop.simps

lemmas handler_eval =
  chess_move_def isValidMove_def makeMove_def checkGameEnd_def all_squares_def
  emit_if_def game_after_def effects_after_def

lemmas started_eval =
  started_def lobby_def chess_invite_response_def find_socket_def createNewChessGame_def

lemmas run_eval =
  started_eval handler_eval board_eval case_eval rule_eval upto_rec1 Let_def

section \<open>The path walk\<close>

lemma path_loop_at_target:
  "path_loop b rs cs tr tc tr tc = Some (Inr True)"
  by (subst path_loop.simps) simp

lemma path_loop_returns:
  "rs \<noteq> 0 \<or> cs \<noteq> 0 \<Longrightarrow>
   \<exists>r. path_loop b rs cs (cr + int n * rs) (cc + int n * cs) cr cc = Some r"
proof (induction n arbitrary: cr cc)
  case 0
  then show ?case by (simp add: path_loop_at_target)
next
  case (Suc n)
  have tgt: "cr + int (Suc n) * rs = (cr + rs) + int n * rs"
            "cc + int (Suc n) * cs = (cc + cs) + int n * cs"
    by (simp_all add: algebra_simps)
  from Suc.IH [OF Suc.prems, of "cr + rs" "cc + cs"]
  obtain r where r: "path_loop b rs cs (cr + int (Suc n) * rs) (cc + int (Suc n) * cs)
                       (cr + rs) (cc + cs) = Some r"
    unfolding tgt by blast
  show ?case
    using Suc.prems by (subst path_loop.simps) (simp add: r split: sum.split del: of_nat_Suc)
qed

lemma path_loop_true_null:
  "rs \<noteq> 0 \<or> cs \<noteq> 0 \<Longrightarrow>
   path_loop b rs cs (cr + int n * rs) (cc + int n * cs) cr cc = Some (Inr True) \<Longrightarrow>
   k < n \<Longrightarrow> board_get b (cr + int k * rs) (cc + int k * cs) = Inr Null"
proof (induction n arbitrary: cr cc k)
  case 0
  then show ?case by simp
next
  case (Suc n)
  have tgt: "cr + int (Suc n) * rs = (cr + rs) + int n * rs"
            "cc + int (Suc n) * cs = (cc + cs) + int n * cs"
    by (simp_all add: algebra_simps)
  have away: "cr \<noteq> cr + int (Suc n) * rs \<or> cc \<noteq> cc + int (Suc n) * cs"
    using Suc.prems(1) by auto
  from Suc.prems(2) away
  have here: "board_get b cr cc = Inr Null"
    and rest: "path_loop b rs cs (cr + int (Suc n) * rs) (cc + int (Suc n) * cs)
                 (cr + rs) (cc + cs) = Some (Inr True)"
    by (subst (asm) path_loop.simps, simp split: sum.splits if_splits del: of_nat_Suc)+
  show ?case
  proof (cases k)
    case 0
    then show ?thesis using here by simp
  next
    case (Suc j)
    with Suc.prems(3) have "j < n" by simp
    from Suc.IH [OF Suc.prems(1) rest [unfolded tgt] this]
    show ?thesis using Suc by (simp add: algebra_simps)
  qed
qed

lemma isPathClear_aligned:
  assumes al: "\<bar>tr - fr\<bar> = 0 \<or> \<bar>tc - fc\<bar> = 0 \<or> \<bar>tr - fr\<bar> = \<bar>tc - fc\<bar>"
  shows "\<exists>r. isPathClear b (fr, fc) (tr, tc) = Some r"
proof (cases "fr = tr \<and> fc = tc")
  case True
  then show ?thesis by (simp add: isPathClear_def path_loop_at_target)
next
  case False
  define rs where "rs = step_of fr tr"
  define cs where "cs = step_of fc tc"
  define n where "n = nat (max \<bar>tr - fr\<bar> \<bar>tc - fc\<bar>) - 1"
  have nz: "rs \<noteq> 0 \<or> cs \<noteq> 0" using False by (auto simp: rs_def cs_def step_of_def)
  have tr: "tr = (fr + rs) + int n * rs" and tc: "tc = (fc + cs) + int n * cs"
    using al False by (auto simp: rs_def cs_def n_def step_of_def algebra_simps split: if_splits)
  from path_loop_returns [OF nz, of b "fr + rs" n "fc + cs"]
  show ?thesis
    unfolding isPathClear_def tr [symmetric] tc [symmetric]
    by (simp add: rs_def cs_def step_of_def Let_def)
qed

lemma between_param:
  assumes al: "\<bar>tr - fr\<bar> = 0 \<or> \<bar>tc - fc\<bar> = 0 \<or> \<bar>tr - fr\<bar> = \<bar>tc - fc\<bar>"
    and sb: "strictly_between (fr, fc) (tr, tc) (r, c)"
  shows "\<exists>k. 0 < k \<and> k < max \<bar>tr - fr\<bar> \<bar>tc - fc\<bar> \<and>
             r = fr + k * step_of fr tr \<and> c = fc + k * step_of fc tc"
proof -
  define k where "k = max \<bar>r - fr\<bar> \<bar>c - fc\<bar>"
  from sb have box: "min fr tr \<le> r" "r \<le> max fr tr" "min fc tc \<le> c" "c \<le> max fc tc"
    and ne: "(r, c) \<noteq> (fr, fc)" "(r, c) \<noteq> (tr, tc)"
    and col: "(r - fr) * (tc - fc) = (c - fc) * (tr - fr)"
    by (simp_all add: strictly_between_def)
  consider (row) "tr = fr" | (column) "tc = fc" "tr \<noteq> fr"
    | (diag) "tr - fr = tc - fc" "tr \<noteq> fr" "tc \<noteq> fc"
    | (anti) "tr - fr = - (tc - fc)" "tr \<noteq> fr" "tc \<noteq> fc"
    using al by (auto simp: abs_if split: if_splits)
  then show ?thesis
  proof cases
    case row
    with box ne have "r = fr" "c \<noteq> fc" "c \<noteq> tc" by auto
    with box row show ?thesis
      by (intro exI [of _ "\<bar>c - fc\<bar>"]) (auto simp: step_of_def abs_if)
  next
    case column
    with box ne have "c = fc" "r \<noteq> fr" "r \<noteq> tr" by auto
    with box column show ?thesis
      by (intro exI [of _ "\<bar>r - fr\<bar>"]) (auto simp: step_of_def abs_if)
  next
    case diag
    from col diag have "(r - fr) * (tc - fc) = (c - fc) * (tc - fc)" by simp
    with diag have eq: "r - fr = c - fc" by simp
    with box ne diag show ?thesis
      by (intro exI [of _ "\<bar>r - fr\<bar>"]) (auto simp: step_of_def abs_if)
  next
    case anti
    have "(c - fc) * (- (tc - fc)) = (- (c - fc)) * (tc - fc)"
      by (simp only: mult_minus_left mult_minus_right)
    with col have "(r - fr) * (tc - fc) = (- (c - fc)) * (tc - fc)"
      by (simp only: anti(1))
    with anti(3) have eq: "r - fr = - (c - fc)" by (simp only: mult_cancel_right) simp
    with box ne anti show ?thesis
      by (intro exI [of _ "\<bar>r - fr\<bar>"]) (auto simp: step_of_def abs_if)
  qed
qed

lemma isPathClear_true_between:
  assumes al: "\<bar>tr - fr\<bar> = 0 \<or> \<bar>tc - fc\<bar> = 0 \<or> \<bar>tr - fr\<bar> = \<bar>tc - fc\<bar>"
    and clear: "isPathClear b (fr, fc) (tr, tc) = Some (Inr True)"
    and sb: "strictly_between (fr, fc) (tr, tc) (r, c)"
  shows "board_get b r c = Inr Null"
proof -
  define rs where "rs = step_of fr tr"
  define cs where "cs = step_of fc tc"
  define n where "n = nat (max \<bar>tr - fr\<bar> \<bar>tc - fc\<bar>) - 1"
  from between_param [OF al sb] obtain k where k: "0 < k" "k < max \<bar>tr - fr\<bar> \<bar>tc - fc\<bar>"
    "r = fr + k * rs" "c = fc + k * cs"
    unfolding rs_def cs_def by blast
  then have far: "fr \<noteq> tr \<or> fc \<noteq> tc" by auto
  have nz: "rs \<noteq> 0 \<or> cs \<noteq> 0" using far by (auto simp: rs_def cs_def step_of_def)
  have tr: "tr = (fr + rs) + int n * rs" and tc: "tc = (fc + cs) + int n * cs"
    using al far by (auto simp: rs_def cs_def n_def step_of_def algebra_simps split: if_splits)
  have loop: "path_loop b rs cs ((fr + rs) + int n * rs) ((fc + cs) + int n * cs)
                (fr + rs) (fc + cs) = Some (Inr True)"
    using clear unfolding tr [symmetric] tc [symmetric]
    by (simp add: isPathClear_def rs_def cs_def step_of_def Let_def)
  have kn: "nat (k - 1) < n" using k by (simp add: n_def)
  from path_loop_true_null [OF nz loop kn]
  show ?thesis using k by (simp add: algebra_simps)
qed

section \<open>The validator\<close>

lemma guarded_path_total:
  assumes "G \<Longrightarrow> \<bar>tr - fr\<bar> = 0 \<or> \<bar>tc - fc\<bar> = 0 \<or> \<bar>tr - fr\<bar> = \<bar>tc - fc\<bar>"
  shows "\<exists>r. (if G then isPathClear b (fr, fc) (tr, tc) else Some (Inr False)) = Some r"
proof (cases G)
  case True
  from isPathClear_aligned [OF assms [OF True]] True show ?thesis by simp
next
  case False
  then show ?thesis by simp
qed

lemma rook_rule_total: "\<exists>r. rook_rule b (fr, fc) (tr, tc) = Some r"
  unfolding rook_rule_def Let_def prod.case by (rule guarded_path_total) blast

lemma bishop_rule_total: "\<exists>r. bishop_rule b (fr, fc) (tr, tc) = Some r"
  unfolding bishop_rule_def Let_def prod.case by (rule guarded_path_total) blast

lemma queen_rule_total: "\<exists>r. queen_rule b (fr, fc) (tr, tc) = Some r"
  unfolding queen_rule_def Let_def prod.case by (rule guarded_path_total) blast

lemma piece_rule_total: "\<exists>r. piece_rule b (fr, fc) (tr, tc) w t pt = Some r"
  by (simp add: piece_rule_def rook_rule_total bishop_rule_total queen_rule_total)

lemma isValidMove_total: "\<exists>r. isValidMove g from to = Some r"
proof -
  obtain fr fc tr tc where sq: "from = (fr, fc)" "to = (tr, tc)"
    by (cases "from", cases "to") auto
  show ?thesis
    unfolding sq isValidMove_def
    using piece_rule_total [of "board g" fr fc tr tc]
    by (simp add: Let_def split: sum.split jsval.split)
qed

lemma isValidMove_true:
  assumes legal: "isValidMove g (fr, fc) (tr, tc) = Some (Inr True)"
  obtains p t where
    "0 \<le> fr" "fr \<le> 7" "0 \<le> fc" "fc \<le> 7" "0 \<le> tr" "tr \<le> 7" "0 \<le> tc" "tc \<le> 7"
    "board_get (board g) fr fc = Inr (Str p)" "p \<noteq> []"
    "board_get (board g) tr tc = Inr t"
    "piece_rule (board g) (fr, fc) (tr, tc) (p = toUpperCase p) t (toLowerCase p) = Some (Inr True)"
proof -
  have inb: "\<not> (fr < 0 \<or> fr > 7 \<or> fc < 0 \<or> fc > 7 \<or> tr < 0 \<or> tr > 7 \<or> tc < 0 \<or> tc > 7)"
  proof
    assume "fr < 0 \<or> fr > 7 \<or> fc < 0 \<or> fc > 7 \<or> tr < 0 \<or> tr > 7 \<or> tc < 0 \<or> tc > 7"
    then have "isValidMove g (fr, fc) (tr, tc) = Some (Inr False)"
      unfolding isValidMove_def by (simp only: prod.case if_True)
    with legal show False by simp
  qed
  then have l1: "(case board_get (board g) fr fc of
           Inl e \<Rightarrow> Some (Inl e)
         | Inr Undefined \<Rightarrow> Some (Inr False)
         | Inr Null \<Rightarrow> Some (Inr False)
         | Inr (Str p) \<Rightarrow>
             if p = [] then Some (Inr False)
             else
               let isWhitePiece = (p = toUpperCase p) in
               if (currentTurn g = ''white'' \<and> \<not> isWhitePiece) \<or>
                  (currentTurn g = ''black'' \<and> isWhitePiece) then Some (Inr False)
               else
                 (case board_get (board g) tr tc of
                    Inl e \<Rightarrow> Some (Inl e)
                  | Inr targetPiece \<Rightarrow>
                      if (case targetPiece of
                            Str t \<Rightarrow> t \<noteq> [] \<and> isWhitePiece = (t = toUpperCase t)
                          | _ \<Rightarrow> False)
                      then Some (Inr False)
                      else piece_rule (board g) (fr, fc) (tr, tc) isWhitePiece targetPiece
                             (toLowerCase p))) = Some (Inr True)"
    using legal unfolding isValidMove_def by (simp only: prod.case if_False)
  then obtain p where p: "board_get (board g) fr fc = Inr (Str p)" "p \<noteq> []"
    by (cases "board_get (board g) fr fc") (auto split: jsval.splits if_splits)
  with l1 obtain t where t: "board_get (board g) tr tc = Inr t"
    by (cases "board_get (board g) tr tc") (auto simp: Let_def split: if_splits)
  from l1 p t have "piece_rule (board g) (fr, fc) (tr, tc) (p = toUpperCase p) t (toLowerCase p)
      = Some (Inr True)"
    by (simp add: Let_def split: if_splits)
  with inb p t that show thesis by simp
qed

lemma piece_rule_slider:
  assumes rule: "piece_rule b (fr, fc) (tr, tc) w t pt = Some (Inr True)"
    and pt: "pt = ''r'' \<or> pt = ''b'' \<or> pt = ''q''"
  shows "(\<bar>tr - fr\<bar> = 0 \<or> \<bar>tc - fc\<bar> = 0 \<or> \<bar>tr - fr\<bar> = \<bar>tc - fc\<bar>) \<and>
         isPathClear b (fr, fc) (tr, tc) = Some (Inr True)"
  using pt
proof (elim disjE)
  assume "pt = ''r''"
  with rule have "rook_rule b (fr, fc) (tr, tc) = Some (Inr True)" by (simp add: piece_rule_def)
  then show ?thesis by (auto simp: rook_rule_def Let_def split: if_splits)
next
  assume "pt = ''b''"
  with rule have "bishop_rule b (fr, fc) (tr, tc) = Some (Inr True)" by (simp add: piece_rule_def)
  then show ?thesis by (auto simp: bishop_rule_def Let_def split: if_splits)
next
  assume "pt = ''q''"
  with rule have "queen_rule b (fr, fc) (tr, tc) = Some (Inr True)" by (simp add: piece_rule_def)
  then show ?thesis by (auto simp: queen_rule_def Let_def split: if_splits)
qed

lemma valid_move_leaves_square:
  assumes "isValidMove g from to = Some (Inr True)"
  shows "from \<noteq> to"
proof
  assume same: "from = to"
  obtain r c where sq: "to = (r, c)" by (cases "to") auto
  from assms [unfolded same sq] obtain p t where
    p: "board_get (board g) r c = Inr (Str p)" "p \<noteq> []"
    by (rule isValidMove_true)
  then have "isValidMove g (r, c) (r, c) \<noteq> Some (Inr True)"
    by (simp add: isValidMove_def Let_def)
  with assms same sq show False by simp
qed

lemma pawn_rule_shape:
  assumes "pawn_rule (fr, fc) (tr, tc) w t"
  shows "(tc = fc \<and> \<not> truthy t \<and>
            (tr = fr + (if w then -1 else 1) \<or>
             fr = (if w then 6 else 1) \<and> tr = fr + 2 * (if w then -1 else 1))) \<or>
         (\<bar>tc - fc\<bar> = 1 \<and> truthy t \<and> tr = fr + (if w then -1 else 1))"
  using assms by (auto simp: pawn_rule_def Let_def split: if_splits)

section \<open>The starting position and the king scan\<close>

lemma in_0_7: "(r::int) \<in> {0..7} \<Longrightarrow> r = 0 \<or> r = 1 \<or> r = 2 \<or> r = 3 \<or> r = 4 \<or> r = 5 \<or> r = 6 \<or> r = 7"
  by auto

lemma initial_board_standard:
  assumes "r \<in> {0..7}" and "c \<in> {0..7}"
  shows "board_get initial_board r c = Inr (standard_start_square r c)"
  using in_0_7 [OF assms(1)] in_0_7 [OF assms(2)]
  by (elim disjE; simp add: board_eval standard_start_square_def)

lemma set_all_squares: "set all_squares = {0..7} \<times> {0..7}"
  by (simp add: all_squares_def)

lemma scan_kings_result:
  assumes "has_rows b" and "set sqs \<subseteq> set all_squares"
  shows "scan_kings b sqs (wk, bk) =
           Inr (wk \<or> (\<exists>sq \<in> set sqs. square_value b sq = Str ''K''),
                bk \<or> (\<exists>sq \<in> set sqs. square_value b sq = Str ''k''))"
  using assms(2)
proof (induction sqs arbitrary: wk bk)
  case Nil
  then show ?case by simp
next
  case (Cons sq sqs)
  obtain r c where sq: "sq = (r, c)" by (cases sq) auto
  with Cons.prems have "r \<in> {0..7}" by (simp add: set_all_squares)
  with assms(1) obtain rw where rw: "b r = Some rw" unfolding has_rows_def by blast
  from Cons.prems have "set sqs \<subseteq> set all_squares" by simp
  from Cons.IH [OF this] rw show ?case
    by (auto simp: sq board_get_def square_value_def)
qed

section \<open>The move handler\<close>

lemma makeMove_ok:
  assumes "board_get (board g) fr fc = Inr pc" and "board_get (board g) tr tc = Inr cap"
  shows "\<exists>g1. makeMove g (fr, fc) (tr, tc) now = Inr g1"
proof -
  from assms obtain rf rt where "board g fr = Some rf" "board g tr = Some rt"
    by (auto simp: board_get_def split: option.splits)
  then show ?thesis
    by (simp add: makeMove_def board_get_def board_set_def)
qed

lemma makeMove_fields:
  assumes "makeMove g from to now = Inr g1"
  shows "whitePlayer g1 = whitePlayer g" "blackPlayer g1 = blackPlayer g"
    "currentTurn g1 = currentTurn g" "gameStatus g1 = gameStatus g"
    "moveHistory g1 = moveHistory g @
       [\<lparr> from_sq = from, to_sq = to, piece = square_value (board g) from,
          capturedPiece = square_value (board g) to, timestamp = now \<rparr>]"
  using assms
  by (cases "from"; cases "to";
      auto simp: makeMove_def square_value_def split: sum.splits)+

lemma makeMove_board:
  assumes "makeMove g (fr, fc) (tr, tc) now = Inr g1"
  shows "board_get (board g1) fr fc = Inr Null"
    and "(fr, fc) \<noteq> (tr, tc) \<Longrightarrow> board_get (board g1) tr tc = board_get (board g) fr fc"
  using assms
  by (auto simp: makeMove_def board_get_def board_set_def split: sum.splits option.splits if_splits)

lemma checkGameEnd_status:
  assumes "checkGameEnd g gid = Inr (g', out)"
  shows "\<exists>st. g' = g\<lparr>gameStatus := st\<rparr>"
proof -
  from assms consider "g' = g\<lparr>gameStatus := ''black_wins''\<rparr>"
    | "g' = g\<lparr>gameStatus := ''white_wins''\<rparr>" | "g' = g"
    by (auto simp: checkGameEnd_def split: sum.splits prod.splits if_splits)
  then show ?thesis
  proof cases
    case 3
    then have "g' = g\<lparr>gameStatus := gameStatus g\<rparr>" by simp
    then show ?thesis by (rule exI)
  qed (rule exI, assumption)+
qed

lemma written_statuses_append:
  "written_statuses (xs @ ys) = written_statuses xs @ written_statuses ys"
  by (induction xs rule: written_statuses.induct) simp_all

lemma written_statuses_emit_if: "written_statuses (emit_if sid p) = []"
  by (simp add: emit_if_def split: option.split)

lemma checkGameEnd_no_write:
  assumes "checkGameEnd g gid = Inr (g', out)"
  shows "written_statuses out = []"
  using assms by (auto simp: checkGameEnd_def split: sum.splits prod.splits if_splits)

lemma chess_move_accepted_unfold:
  assumes game: "chessGames s gid = Some g"
    and acc: "accepted gid s (ChessMove sock gid from to now db_ok)"
  shows "\<exists>g1. makeMove g from to now = Inr g1 \<and>
     chess_move s sock gid from to now db_ok =
      (let g2 = g1\<lparr>currentTurn := flip_turn (currentTurn g)\<rparr>;
           s2 = s\<lparr>chessGames := (chessGames s)(gid \<mapsto> g2)\<rparr> in
       if \<not> db_ok then Some (s2, [ConsoleError ''Error updating chess game:''])
       else
         let written =
               DbUpdateChessGame gid
                 \<lparr> u_currentTurn = currentTurn g2, u_boardState = board g2,
                   u_gameStatus = gameStatus g2, u_moveHistory = moveHistory g2,
                   u_winner = Undefined \<rparr>;
             made =
               emit_if (find_socket (activeUsers s) (whitePlayer g2)) (ChessMoveMade gid g2) @
               emit_if (find_socket (activeUsers s) (blackPlayer g2)) (ChessMoveMade gid g2) in
         (case checkGameEnd g2 gid of
            Inl e \<Rightarrow> Some (s2, written # made @ [ConsoleError ''Error updating chess game:''])
          | Inr (g3, ended) \<Rightarrow>
              Some (s\<lparr>chessGames := (chessGames s)(gid \<mapsto> g3)\<rparr>, written # made @ ended)))"
proof -
  obtain fr fc tr tc where sq: "from = (fr, fc)" "to = (tr, tc)"
    by (cases "from", cases "to") auto
  from acc game have user: "truthy_str (map_of (activeUsers s) sock)"
    and turn: "(currentTurn g = ''white'' \<and> Some (whitePlayer g) = map_of (activeUsers s) sock) \<or>
               (currentTurn g = ''black'' \<and> Some (blackPlayer g) = map_of (activeUsers s) sock)"
    and valid: "isValidMove g from to = Some (Inr True)"
    by simp_all
  from valid [unfolded sq] obtain p t where
    "board_get (board g) fr fc = Inr (Str p)" "board_get (board g) tr tc = Inr t"
    by (rule isValidMove_true)
  from makeMove_ok [OF this] obtain g1 where g1: "makeMove g from to now = Inr g1"
    unfolding sq by blast
  note f = makeMove_fields [OF g1]
  have "chess_move s sock gid from to now db_ok =
      (let g2 = g1\<lparr>currentTurn := flip_turn (currentTurn g)\<rparr>;
           s2 = s\<lparr>chessGames := (chessGames s)(gid \<mapsto> g2)\<rparr> in
       if \<not> db_ok then Some (s2, [ConsoleError ''Error updating chess game:''])
       else
         let written =
               DbUpdateChessGame gid
                 \<lparr> u_currentTurn = currentTurn g2, u_boardState = board g2,
                   u_gameStatus = gameStatus g2, u_moveHistory = moveHistory g2,
                   u_winner = Undefined \<rparr>;
             made =
               emit_if (find_socket (activeUsers s) (whitePlayer g2)) (ChessMoveMade gid g2) @
               emit_if (find_socket (activeUsers s) (blackPlayer g2)) (ChessMoveMade gid g2) in
         (case checkGameEnd g2 gid of
            Inl e \<Rightarrow> Some (s2, written # made @ [ConsoleError ''Error updating chess game:''])
          | Inr (g3, ended) \<Rightarrow>
              Some (s\<lparr>chessGames := (chessGames s)(gid \<mapsto> g3)\<rparr>, written # made @ ended)))"
    using game user turn valid g1 f(3)
    by (simp add: chess_move_def flip_turn_def Let_def)
  with g1 show ?thesis by blast
qed

lemma chess_move_accepted:
  assumes game: "chessGames s gid = Some g"
    and acc: "accepted gid s (ChessMove sock gid from to now db_ok)"
  shows "\<exists>g1 st out. makeMove g from to now = Inr g1 \<and>
           chess_move s sock gid from to now db_ok =
             Some (s\<lparr>chessGames := (chessGames s)(gid \<mapsto>
                      g1\<lparr>currentTurn := flip_turn (currentTurn g), gameStatus := st\<rparr>)\<rparr>, out)"
proof -
  from chess_move_accepted_unfold [OF game acc] obtain g1
    where g1: "makeMove g from to now = Inr g1"
      and head: "chess_move s sock gid from to now db_ok =
        (let g2 = g1\<lparr>currentTurn := flip_turn (currentTurn g)\<rparr>;
             s2 = s\<lparr>chessGames := (chessGames s)(gid \<mapsto> g2)\<rparr> in
         if \<not> db_ok then Some (s2, [ConsoleError ''Error updating chess game:''])
         else
           let written =
                 DbUpdateChessGame gid
                   \<lparr> u_currentTurn = currentTurn g2, u_boardState = board g2,
                     u_gameStatus = gameStatus g2, u_moveHistory = moveHistory g2,
                     u_winner = Undefined \<rparr>;
               made =
                 emit_if (find_socket (activeUsers s) (whitePlayer g2)) (ChessMoveMade gid g2) @
                 emit_if (find_socket (activeUsers s) (blackPlayer g2)) (ChessMoveMade gid g2) in
           (case checkGameEnd g2 gid of
              Inl e \<Rightarrow> Some (s2, written # made @ [ConsoleError ''Error updating chess game:''])
            | Inr (g3, ended) \<Rightarrow>
                Some (s\<lparr>chessGames := (chessGames s)(gid \<mapsto> g3)\<rparr>, written # made @ ended)))"
    by blast
  define g2 where "g2 = g1\<lparr>currentTurn := flip_turn (currentTurn g)\<rparr>"
  have g2st: "g2 = g1\<lparr>currentTurn := flip_turn (currentTurn g), gameStatus := gameStatus g1\<rparr>"
    by (simp add: g2_def)
  show ?thesis
  proof (cases "db_ok \<and> (\<exists>g3 ended. checkGameEnd g2 gid = Inr (g3, ended))")
    case True
    then obtain g3 ended where ce: "checkGameEnd g2 gid = Inr (g3, ended)" and db: db_ok by blast
    from checkGameEnd_status [OF ce] obtain st where "g3 = g2\<lparr>gameStatus := st\<rparr>" by blast
    then have "g3 = g1\<lparr>currentTurn := flip_turn (currentTurn g), gameStatus := st\<rparr>"
      by (simp add: g2_def)
    with head ce db have "\<exists>out. chess_move s sock gid from to now db_ok =
        Some (s\<lparr>chessGames := (chessGames s)(gid \<mapsto>
                 g1\<lparr>currentTurn := flip_turn (currentTurn g), gameStatus := st\<rparr>)\<rparr>, out)"
      by (simp add: Let_def g2_def)
    with g1 show ?thesis by blast
  next
    case False
    then have "\<exists>out. chess_move s sock gid from to now db_ok =
        Some (s\<lparr>chessGames := (chessGames s)(gid \<mapsto> g2)\<rparr>, out)"
      unfolding head by (cases "checkGameEnd g2 gid") (auto simp: Let_def g2_def)
    with g1 g2st show ?thesis by metis
  qed
qed

lemma accepted_move_trace:
  assumes game: "chessGames s gid = Some g"
    and acc: "accepted gid s (ChessMove sock gid from to now True)"
  shows "\<exists>u rest. effects_after (chess_move s sock gid from to now True) =
                    DbUpdateChessGame gid u # rest \<and>
                  u_gameStatus u = gameStatus g \<and> u_winner u = Undefined \<and>
                  written_statuses rest = []"
proof -
  from chess_move_accepted_unfold [OF game acc] obtain g1
    where g1: "makeMove g from to now = Inr g1"
      and cm: "chess_move s sock gid from to now True =
        (let g2 = g1\<lparr>currentTurn := flip_turn (currentTurn g)\<rparr>;
             s2 = s\<lparr>chessGames := (chessGames s)(gid \<mapsto> g2)\<rparr> in
         if \<not> True then Some (s2, [ConsoleError ''Error updating chess game:''])
         else
           let written =
                 DbUpdateChessGame gid
                   \<lparr> u_currentTurn = currentTurn g2, u_boardState = board g2,
                     u_gameStatus = gameStatus g2, u_moveHistory = moveHistory g2,
                     u_winner = Undefined \<rparr>;
               made =
                 emit_if (find_socket (activeUsers s) (whitePlayer g2)) (ChessMoveMade gid g2) @
                 emit_if (find_socket (activeUsers s) (blackPlayer g2)) (ChessMoveMade gid g2) in
           (case checkGameEnd g2 gid of
              Inl e \<Rightarrow> Some (s2, written # made @ [ConsoleError ''Error updating chess game:''])
            | Inr (g3, ended) \<Rightarrow>
                Some (s\<lparr>chessGames := (chessGames s)(gid \<mapsto> g3)\<rparr>, written # made @ ended)))"
    by blast
  note st = makeMove_fields(4) [OF g1]
  show ?thesis
  proof (cases "checkGameEnd (g1\<lparr>currentTurn := flip_turn (currentTurn g)\<rparr>) gid")
    case (Inl e)
    with st show ?thesis
      unfolding cm
      by (simp add: Let_def effects_after_def written_statuses_append written_statuses_emit_if)
  next
    case (Inr r)
    obtain g3 ended where r: "r = (g3, ended)" by (cases r) auto
    from checkGameEnd_no_write [OF Inr [unfolded r]] Inr r st show ?thesis
      unfolding cm
      by (simp add: Let_def effects_after_def written_statuses_append written_statuses_emit_if)
  qed
qed

lemma chess_move_not_accepted:
  assumes "\<not> accepted gid s (ChessMove sock gid from to now db_ok)"
  shows "\<exists>out. chess_move s sock gid from to now db_ok = Some (s, out)"
proof (cases "chessGames s gid")
  case None
  then show ?thesis by (simp add: chess_move_def)
next
  case (Some g)
  from isValidMove_total [of g "from" "to"] obtain r where r: "isValidMove g from to = Some r"
    by blast
  with assms Some have "r \<noteq> Inr True \<or> \<not> truthy_str (map_of (activeUsers s) sock) \<or>
      \<not> ((currentTurn g = ''white'' \<and> Some (whitePlayer g) = map_of (activeUsers s) sock) \<or>
         (currentTurn g = ''black'' \<and> Some (blackPlayer g) = map_of (activeUsers s) sock))"
    by auto
  with Some r show ?thesis
    by (cases r) (auto simp: chess_move_def Let_def)
qed

lemma step_move_on_game:
  assumes mv: "is_move e" and game: "chessGames s gid = Some g"
  shows "\<exists>s1 out g'. step s e = Some (s1, out) \<and> chessGames s1 gid = Some g' \<and>
           (if accepted gid s e
            then currentTurn g' = flip_turn (currentTurn g) \<and>
                 moveHistory g' = moveHistory g @ [expected_record g e]
            else g' = g)"
proof -
  from mv obtain sock gid' "from" "to" now db_ok
    where e: "e = ChessMove sock gid' from to now db_ok"
    by (cases e) auto
  show ?thesis
  proof (cases "accepted gid s e")
    case True
    then have same: "gid' = gid" by (simp add: e)
    from chess_move_accepted [OF game True [unfolded e same]]
    obtain g1 st out where g1: "makeMove g from to now = Inr g1"
      and res: "chess_move s sock gid from to now db_ok =
             Some (s\<lparr>chessGames := (chessGames s)(gid \<mapsto>
                      g1\<lparr>currentTurn := flip_turn (currentTurn g), gameStatus := st\<rparr>)\<rparr>, out)"
      by blast
    from makeMove_fields(5) [OF g1] res True show ?thesis
      by (simp add: e same)
  next
    case False
    show ?thesis
    proof (cases "accepted gid' s e")
      case True
      with False have other: "gid' \<noteq> gid" by (auto simp: e)
      from True obtain g0 where g0: "chessGames s gid' = Some g0"
        by (auto simp: e split: option.splits)
      from chess_move_accepted [OF g0 True [unfolded e]] other game False show ?thesis
        by (auto simp: e)
    next
      case F2: False
      from chess_move_not_accepted [OF F2 [unfolded e]] game False show ?thesis
        by (auto simp: e)
    qed
  qed
qed

lemma run_moves_on_game:
  assumes "list_all is_move evs" and "chessGames s gid = Some g"
  shows "\<exists>s' out g'. run s evs = Some (s', out) \<and> chessGames s' gid = Some g' \<and>
           currentTurn g' = (flip_turn ^^ count_accepted gid s evs) (currentTurn g) \<and>
           moveHistory g' = moveHistory g @ expected_records gid s evs \<and>
           length (expected_records gid s evs) = count_accepted gid s evs"
  using assms
proof (induction evs arbitrary: s g)
  case Nil
  then show ?case by simp
next
  case (Cons e evs)
  from Cons.prems have mv: "is_move e" and rest: "list_all is_move evs" by simp_all
  from step_move_on_game [OF mv Cons.prems(2)]
  obtain s1 out1 g1 where st: "step s e = Some (s1, out1)" and g1: "chessGames s1 gid = Some g1"
    and eff: "if accepted gid s e
            then currentTurn g1 = flip_turn (currentTurn g) \<and>
                 moveHistory g1 = moveHistory g @ [expected_record g e]
            else g1 = g"
    by blast
  from Cons.IH [OF rest g1]
  obtain s' out g' where run: "run s1 evs = Some (s', out)" and g': "chessGames s' gid = Some g'"
    and turn: "currentTurn g' = (flip_turn ^^ count_accepted gid s1 evs) (currentTurn g1)"
    and hist: "moveHistory g' = moveHistory g1 @ expected_records gid s1 evs"
    and len: "length (expected_records gid s1 evs) = count_accepted gid s1 evs"
    by blast
  show ?case
  proof (cases "accepted gid s e")
    case True
    with eff st run g' turn hist len Cons.prems(2) show ?thesis
      by (simp add: funpow_swap1)
  next
    case False
    with eff st run g' turn hist len show ?thesis by simp
  qed
qed

lemma flip_turn_parity:
  "(flip_turn ^^ n) ''white'' = (if even n then ''white'' else ''black'')"
  by (induction n) (simp_all add: flip_turn_def)

section \<open>Two games played out\<close>

lemma king_capture_facts:
  "case run started king_capture of
     None \<Rightarrow> False
   | Some (s, out) \<Rightarrow>
       activeUsers s = [(''s1'', ''alice''), (''s2'', ''bob'')] \<and>
       written_statuses out = [''active'', ''active'', ''active'', ''active'', ''active''] \<and>
       ended_broadcasts out = [ChessGameEnded ''g1'' ''alice'' ''checkmate''] \<and>
       last out = EmitAll (ChessGameEnded ''g1'' ''alice'' ''checkmate'') \<and>
       (case chessGames s ''g1'' of
          None \<Rightarrow> False
        | Some g \<Rightarrow>
            gameStatus g = ''white_wins'' \<and> currentTurn g = ''black'' \<and>
            blackPlayer g = ''bob'' \<and> length (moveHistory g) = 5 \<and>
            isValidMove g (2, 0) (3, 0) = Some (Inr True))"
  by (simp add: king_capture_def run_eval)

lemma after_capture_game:
  obtains g where "chessGames after_capture ''g1'' = Some g"
    and "gameStatus g = ''white_wins''" and "currentTurn g = ''black''"
    and "length (moveHistory g) = 5"
    and "accepted ''g1'' after_capture (ChessMove ''s2'' ''g1'' (2, 0) (3, 0) ''t6'' True)"
  using king_capture_facts
  by (auto simp: after_capture_def split: option.splits)

lemma knight_sortie_facts:
  "case game_after (run started knight_sortie) ''g1'' of
     None \<Rightarrow> False
   | Some g \<Rightarrow>
       square_value (board g) (6, 4) = Str ''P'' \<and>
       square_value (board g) (5, 4) = Str ''n'' \<and>
       square_value (board g) (4, 4) = Null \<and>
       currentTurn g = ''white'' \<and>
       isValidMove g (6, 4) (4, 4) = Some (Inr True)"
  by (simp add: knight_sortie_def square_value_def run_eval)

section \<open>Properties\<close>

text \<open>
  C1, as stated: once the status of a game is terminal, every further move on it is
  rejected and board, turn and history are never mutated again. The handler has no
  check of the status. After the five moves of \<open>king_capture\<close> the status is
  \<open>white_wins\<close> and it is black's turn; black's pawn move from (2, 0) to (3, 0) is then
  applied: the turn goes to white and the history grows from five records to six.
\<close>

theorem terminal_game_accepts_move_counterexample:
  "map_option gameStatus (chessGames after_capture ''g1'') = Some ''white_wins'' \<and>
   map_option currentTurn (chessGames after_capture ''g1'') = Some ''black'' \<and>
   map_option (length \<circ> moveHistory) (chessGames after_capture ''g1'') = Some 5 \<and>
   map_option currentTurn
     (game_after (chess_move after_capture ''s2'' ''g1'' (2, 0) (3, 0) ''t6'' True) ''g1'')
     = Some ''white'' \<and>
   map_option (length \<circ> moveHistory)
     (game_after (chess_move after_capture ''s2'' ''g1'' (2, 0) (3, 0) ''t6'' True) ''g1'')
     = Some 6"
proof -
  obtain g where g: "chessGames after_capture ''g1'' = Some g"
    and st: "gameStatus g = ''white_wins''" and turn: "currentTurn g = ''black''"
    and len: "length (moveHistory g) = 5"
    and acc: "accepted ''g1'' after_capture (ChessMove ''s2'' ''g1'' (2, 0) (3, 0) ''t6'' True)"
    by (rule after_capture_game)
  have mv: "is_move (ChessMove ''s2'' ''g1'' (2, 0) (3, 0) ''t6'' True)" by simp
  from step_move_on_game [OF mv g] acc g st turn len show ?thesis
    by (auto simp: game_after_def flip_turn_def)
qed

text \<open>
  C1, amended. The move handler never looks at the status: on a game whose status is
  terminal a move is judged by the same three guards as on an active one. A move that
  passes them is applied (the piece moves, the turn flips, one record is appended); any
  other move leaves the server state as it was.
\<close>

theorem terminal_status_does_not_gate_moves:
  assumes game: "chessGames s gameId = Some g" and terminal: "gameStatus g \<noteq> ''active''"
  shows "if accepted gameId s (ChessMove socket_id gameId from to now db_ok)
         then (\<exists>s' out g'.
                 chess_move s socket_id gameId from to now db_ok = Some (s', out) \<and>
                 chessGames s' gameId = Some g' \<and>
                 currentTurn g' = flip_turn (currentTurn g) \<and>
                 moveHistory g' = moveHistory g @
                   [expected_record g (ChessMove socket_id gameId from to now db_ok)] \<and>
                 square_value (board g') from = Null \<and>
                 square_value (board g') to = square_value (board g) from)
         else (\<exists>out. chess_move s socket_id gameId from to now db_ok = Some (s, out))"
proof (cases "accepted gameId s (ChessMove socket_id gameId from to now db_ok)")
  case True
  obtain fr fc tr tc where sq: "from = (fr, fc)" "to = (tr, tc)"
    by (cases "from", cases "to") auto
  from True game have "isValidMove g from to = Some (Inr True)" by simp
  then have ne: "(fr, fc) \<noteq> (tr, tc)" using valid_move_leaves_square sq by blast
  from chess_move_accepted [OF game True]
  obtain g1 st out where g1: "makeMove g from to now = Inr g1"
    and res: "chess_move s socket_id gameId from to now db_ok =
             Some (s\<lparr>chessGames := (chessGames s)(gameId \<mapsto>
                      g1\<lparr>currentTurn := flip_turn (currentTurn g), gameStatus := st\<rparr>)\<rparr>, out)"
    by blast
  from makeMove_board [OF g1 [unfolded sq]] ne
  have b: "board_get (board g1) fr fc = Inr Null"
    "board_get (board g1) tr tc = board_get (board g) fr fc" by simp_all
  from True res makeMove_fields(5) [OF g1] b show ?thesis
    by (simp add: sq square_value_def)
next
  case False
  from chess_move_not_accepted [OF False] False show ?thesis by simp
qed

theorem terminal_status_does_not_gate_moves_witness:
  "map_option gameStatus (chessGames after_capture ''g1'') = Some ''white_wins'' \<and>
   accepted ''g1'' after_capture (ChessMove ''s2'' ''g1'' (2, 0) (3, 0) ''t6'' True) \<and>
   map_option (length \<circ> moveHistory)
     (game_after (chess_move after_capture ''s2'' ''g1'' (2, 0) (3, 0) ''t6'' True) ''g1'')
     = Some 6"
proof -
  obtain g where g: "chessGames after_capture ''g1'' = Some g"
    and st: "gameStatus g = ''white_wins''" and len: "length (moveHistory g) = 5"
    and acc: "accepted ''g1'' after_capture (ChessMove ''s2'' ''g1'' (2, 0) (3, 0) ''t6'' True)"
    by (rule after_capture_game)
  from st have ended: "gameStatus g \<noteq> ''active''" by simp
  from terminal_status_does_not_gate_moves
         [OF g ended, of "''s2''" "(2, 0)" "(3, 0)" "''t6''" True] acc g st len
  show ?thesis by (auto simp: game_after_def)
qed

text \<open>
  C2, at a position the server reaches. After the six knight moves of \<open>knight_sortie\<close> a
  black knight stands on (5, 4), between white's pawn on its starting square (6, 4) and
  the empty square (4, 4). The validator accepts the double step from (6, 4) to (4, 4):
  the \<open>case 'p'\<close> branch looks at the destination only, never at the square in between.
\<close>

theorem pawn_double_step_jumps_over_piece:
  "square_value (board after_sortie) (6, 4) = Str ''P'' \<and>
   square_value (board after_sortie) (5, 4) = Str ''n'' \<and>
   square_value (board after_sortie) (4, 4) = Null \<and>
   currentTurn after_sortie = ''white'' \<and>
   isValidMove after_sortie (6, 4) (4, 4) = Some (Inr True)"
  using knight_sortie_facts by (auto simp: after_sortie_def split: option.splits)

text \<open>
  C3, at a run the server can make. In \<open>king_capture\<close> every database write carries the
  status \<open>active\<close>, the last effect of the run is the \<open>chess game ended\<close> broadcast naming
  alice with reason \<open>checkmate\<close>, and the game in memory ends with status \<open>white_wins\<close>:
  the terminal status is broadcast but never written.
\<close>

theorem game_ended_broadcast_without_write:
  "written_statuses (effects_after (run started king_capture)) =
     [''active'', ''active'', ''active'', ''active'', ''active''] \<and>
   ended_broadcasts (effects_after (run started king_capture)) =
     [ChessGameEnded ''g1'' ''alice'' ''checkmate''] \<and>
   last (effects_after (run started king_capture)) =
     EmitAll (ChessGameEnded ''g1'' ''alice'' ''checkmate'') \<and>
   map_option gameStatus (game_after (run started king_capture) ''g1'') = Some ''white_wins''"
  using king_capture_facts
  by (auto simp: effects_after_def game_after_def split: option.splits)

text \<open>
  C4. Over any run of move events, on a game that starts from the initial state, the
  turn is white when the number of accepted moves on that game is even and black when
  it is odd: every accepted move flips it once and nothing else touches it.
\<close>

theorem turn_follows_accepted_moves:
  assumes "list_all is_move evs" and "chessGames s gid = Some (createNewChessGame w b)"
  shows "\<exists>s' out g'. run s evs = Some (s', out) \<and> chessGames s' gid = Some g' \<and>
           currentTurn g' = (if even (count_accepted gid s evs) then ''white'' else ''black'')"
proof -
  from run_moves_on_game [OF assms] flip_turn_parity [of "count_accepted gid s evs"]
  show ?thesis by (auto simp: createNewChessGame_def)
qed

theorem turn_follows_accepted_moves_witness:
  "list_all is_move first_moves \<and>
   chessGames started ''g1'' = Some (createNewChessGame ''alice'' ''bob'') \<and>
   count_accepted ''g1'' started first_moves = 1 \<and>
   map_option currentTurn (game_after (run started first_moves) ''g1'') = Some ''black''"
proof -
  have h1: "list_all is_move first_moves" by (simp add: first_moves_def)
  have h2: "chessGames started ''g1'' = Some (createNewChessGame ''alice'' ''bob'')"
    by (simp add: started_eval Let_def)
  have n: "count_accepted ''g1'' started first_moves = 1"
    by (simp add: first_moves_def started_eval handler_eval board_eval case_eval rule_eval
          upto_rec1 Let_def)
  from turn_follows_accepted_moves [OF h1 h2] n h1 h2 show ?thesis
    by (auto simp: game_after_def)
qed

text \<open>
  C5. On every board, a rook, bishop or queen move that the validator accepts has
  nothing but empty (\<open>null\<close>) squares strictly between its source and its destination.
\<close>

theorem sliding_move_needs_clear_path:
  assumes legal: "isValidMove g from to = Some (Inr True)"
    and mover: "board_get (board g) (fst from) (snd from) = Inr (Str p)"
    and slider: "toLowerCase p = ''r'' \<or> toLowerCase p = ''b'' \<or> toLowerCase p = ''q''"
    and between: "strictly_between from to sq"
  shows "board_get (board g) (fst sq) (snd sq) = Inr Null"
proof -
  obtain fr fc tr tc r c where sq: "from = (fr, fc)" "to = (tr, tc)" "sq = (r, c)"
    by (cases "from", cases "to", cases sq) auto
  from legal [unfolded sq] obtain p' t where
    p': "board_get (board g) fr fc = Inr (Str p')"
    and rule: "piece_rule (board g) (fr, fc) (tr, tc) (p' = toUpperCase p') t (toLowerCase p')
                 = Some (Inr True)"
    by (rule isValidMove_true)
  from p' mover have "p' = p" by (simp add: sq)
  with piece_rule_slider [OF rule] slider
  have al: "\<bar>tr - fr\<bar> = 0 \<or> \<bar>tc - fc\<bar> = 0 \<or> \<bar>tr - fr\<bar> = \<bar>tc - fc\<bar>"
    and clear: "isPathClear (board g) (fr, fc) (tr, tc) = Some (Inr True)"
    by simp_all
  from isPathClear_true_between [OF al clear between [unfolded sq]]
  show ?thesis by (simp add: sq)
qed

theorem sliding_move_needs_clear_path_witness:
  "isValidMove open_file_game (7, 0) (3, 0) = Some (Inr True) \<and>
   board_get (board open_file_game) 7 0 = Inr (Str ''R'') \<and>
   toLowerCase ''R'' = ''r'' \<and>
   strictly_between (7, 0) (3, 0) (5, 0) \<and>
   board_get (board open_file_game) 5 0 = Inr Null"
proof -
  have h1: "isValidMove open_file_game (7, 0) (3, 0) = Some (Inr True)"
    by (simp add: isValidMove_def open_file_game_def createNewChessGame_def
          board_eval case_eval rule_eval Let_def)
  have h2: "board_get (board open_file_game) (fst (7, 0)) (snd (7, 0)) = Inr (Str ''R'')"
    by (simp add: open_file_game_def createNewChessGame_def board_eval)
  have h3: "toLowerCase ''R'' = ''r'' \<or> toLowerCase ''R'' = ''b'' \<or> toLowerCase ''R'' = ''q''"
    by (simp add: case_eval)
  have h4: "strictly_between (7, 0) (3, 0) (5, 0)"
    by (simp add: strictly_between_def)
  from sliding_move_needs_clear_path [OF h1 h2 h3 h4] h1 h2 h4
  show ?thesis by (simp add: case_eval)
qed

text \<open>
  C6. When a known user accepts the invitation of an inviter who is connected, and the
  database accepts the new game, the game registered under the invitation's game id has
  the inviter as white, the responder as black, turn white, status active, an empty
  history, and the standard starting position on all 64 squares.
\<close>

theorem accepted_invitation_registers_initial_game:
  assumes "map_of (activeUsers s) socket_id = Some responder" and "responder \<noteq> []"
    and "find_socket (activeUsers s) inviter = Some inviter_socket" and "inviter_socket \<noteq> []"
  shows "\<exists>s' out g.
           chess_invite_response s socket_id gameId inviter True True save_ok now = (s', out) \<and>
           chessGames s' gameId = Some g \<and>
           whitePlayer g = inviter \<and> blackPlayer g = responder \<and>
           currentTurn g = ''white'' \<and> gameStatus g = ''active'' \<and> moveHistory g = [] \<and>
           (\<forall>r \<in> {0..7}. \<forall>c \<in> {0..7}. board_get (board g) r c = Inr (standard_start_square r c))"
  using assms initial_board_standard
  by (cases save_ok) (simp_all add: chess_invite_response_def createNewChessGame_def Let_def)

theorem accepted_invitation_registers_initial_game_witness:
  "map_of (activeUsers lobby) ''s2'' = Some ''bob'' \<and>
   find_socket (activeUsers lobby) ''alice'' = Some ''s1'' \<and>
   map_option whitePlayer (chessGames started ''g1'') = Some ''alice'' \<and>
   map_option blackPlayer (chessGames started ''g1'') = Some ''bob'' \<and>
   map_option currentTurn (chessGames started ''g1'') = Some ''white'' \<and>
   map_option gameStatus (chessGames started ''g1'') = Some ''active'' \<and>
   map_option moveHistory (chessGames started ''g1'') = Some []"
proof -
  have h1: "map_of (activeUsers lobby) ''s2'' = Some ''bob''" by (simp add: lobby_def)
  have h2: "''bob'' \<noteq> []" by simp
  have h3: "find_socket (activeUsers lobby) ''alice'' = Some ''s1''"
    by (simp add: lobby_def find_socket_def)
  have h4: "''s1'' \<noteq> []" by simp
  from accepted_invitation_registers_initial_game [OF h1 h2 h3 h4, of "''g1''" True "''t0''"]
    h1 h3
  show ?thesis by (auto simp: started_def)
qed

text \<open>
  C7. A move that is rejected (the game or the player's name is not found, it is not
  the player's turn, or the validator returns \<open>false\<close>) produces no effect at all, so no
  notification to anyone, and leaves the whole server state, hence the game's board,
  turn, status and history, as it was.
\<close>

theorem rejected_move_is_silent:
  assumes "rejected s socket_id gameId from to"
  shows "chess_move s socket_id gameId from to now db_ok = Some (s, [])"
  using assms
  by (auto simp: rejected_def chess_move_def Let_def split: option.splits)

theorem rejected_move_is_silent_witness:
  "rejected started ''s2'' ''g1'' (1, 4) (3, 4) \<and>
   chess_move started ''s2'' ''g1'' (1, 4) (3, 4) ''t1'' True = Some (started, [])"
proof -
  have h: "rejected started ''s2'' ''g1'' (1, 4) (3, 4)"
    by (simp add: rejected_def started_def lobby_def chess_invite_response_def
          find_socket_def createNewChessGame_def Let_def)
  from rejected_move_is_silent [OF h] h show ?thesis by simp
qed

text \<open>
  C8. Over any run of move events the history of a game grows by exactly one record for
  each accepted move on it, so its length is the old length plus the number of accepted
  moves, and the records appended are, in order, source square, destination square,
  piece moved, content of the destination before the move (\<open>null\<close> for an empty square)
  and timestamp of each accepted move.
\<close>

theorem history_records_accepted_moves:
  assumes "list_all is_move evs" and "chessGames s gid = Some g"
  shows "\<exists>s' out g'. run s evs = Some (s', out) \<and> chessGames s' gid = Some g' \<and>
           moveHistory g' = moveHistory g @ expected_records gid s evs \<and>
           length (moveHistory g') = length (moveHistory g) + count_accepted gid s evs"
proof -
  from run_moves_on_game [OF assms] show ?thesis by auto
qed

theorem history_records_accepted_moves_witness:
  "list_all is_move first_moves \<and>
   chessGames started ''g1'' = Some (createNewChessGame ''alice'' ''bob'') \<and>
   map_option moveHistory (game_after (run started first_moves) ''g1'') =
     Some [\<lparr> from_sq = (6, 4), to_sq = (4, 4), piece = Str ''P'', capturedPiece = Null,
             timestamp = ''t1'' \<rparr>]"
proof -
  have h1: "list_all is_move first_moves" by (simp add: first_moves_def)
  have h2: "chessGames started ''g1'' = Some (createNewChessGame ''alice'' ''bob'')"
    by (simp add: started_eval Let_def)
  have recs: "expected_records ''g1'' started first_moves =
      [\<lparr> from_sq = (6, 4), to_sq = (4, 4), piece = Str ''P'', capturedPiece = Null,
         timestamp = ''t1'' \<rparr>]"
    by (simp add: first_moves_def started_eval handler_eval board_eval case_eval rule_eval
          square_value_def upto_rec1 Let_def)
  from history_records_accepted_moves [OF h1 h2] recs h1 h2 show ?thesis
    by (auto simp: game_after_def createNewChessGame_def)
qed

text \<open>
  C9. In every game whose board has its eight rows, a move from an in-bounds square to
  that same square is judged illegal, whatever stands on the square: an empty square
  fails the occupancy check, and a piece is either not the mover's or is its own target.
\<close>

theorem same_square_move_illegal:
  assumes "has_rows (board g)" and "0 \<le> r" "r \<le> 7" "0 \<le> c" "c \<le> 7"
  shows "isValidMove g (r, c) (r, c) = Some (Inr False)"
proof -
  from assms have "r \<in> {0..7}" by simp
  with assms(1) obtain rw where "board g r = Some rw" unfolding has_rows_def by blast
  then show ?thesis
    by (simp add: isValidMove_def board_get_def Let_def split: jsval.split)
qed

theorem same_square_move_illegal_witness:
  "has_rows (board (createNewChessGame ''alice'' ''bob'')) \<and>
   isValidMove (createNewChessGame ''alice'' ''bob'') (7, 3) (7, 3) = Some (Inr False)"
proof -
  have h: "has_rows (board (createNewChessGame ''alice'' ''bob''))"
    by (simp add: has_rows_def createNewChessGame_def initial_board_def js_rows_def)
  from same_square_move_illegal [OF h, of 7 3] h show ?thesis by simp
qed

text \<open>
  C10. On a board with its eight rows and no white king on any of the 64 squares, the
  terminal detector sets the status to \<open>black_wins\<close> and broadcasts \<open>chess game ended\<close>
  with the black player as winner and reason \<open>checkmate\<close>, whether or not a black king
  is there: the test for the white king comes first.
\<close>

theorem missing_white_king_means_black_wins:
  assumes "has_rows (board g)"
    and "\<forall>sq \<in> set all_squares. square_value (board g) sq \<noteq> Str ''K''"
  shows "checkGameEnd g gameId =
           Inr (g\<lparr>gameStatus := ''black_wins''\<rparr>,
                [EmitAll (ChessGameEnded gameId (blackPlayer g) ''checkmate'')])"
  using assms scan_kings_result [OF assms(1) subset_refl, of False False]
  by (simp add: checkGameEnd_def)

theorem missing_white_king_means_black_wins_witness:
  "has_rows (board kingless_game) \<and>
   square_value (board kingless_game) (0, 4) = Null \<and>
   square_value (board kingless_game) (7, 4) = Null \<and>
   checkGameEnd kingless_game ''g1'' =
     Inr (kingless_game\<lparr>gameStatus := ''black_wins''\<rparr>,
          [EmitAll (ChessGameEnded ''g1'' ''bob'' ''checkmate'')])"
proof -
  have h1: "has_rows (board kingless_game)"
    by (simp add: has_rows_def kingless_game_def createNewChessGame_def initial_board_def
          js_rows_def)
  have h2: "\<forall>sq \<in> set all_squares. square_value (board kingless_game) sq \<noteq> Str ''K''"
    by (simp add: all_squares_def upto_rec1 square_value_def kingless_game_def
          createNewChessGame_def board_eval)
  have b: "blackPlayer kingless_game = ''bob''"
    by (simp add: kingless_game_def createNewChessGame_def)
  have e: "square_value (board kingless_game) (0, 4) = Null"
    "square_value (board kingless_game) (7, 4) = Null"
    by (simp_all add: square_value_def kingless_game_def createNewChessGame_def board_eval)
  from missing_white_king_means_black_wins [OF h1 h2, of "''g1''"] h1 b e
  show ?thesis by simp
qed

end
